theory Spec2Isabelle
  imports
    Main
    "HOL-Library.Char_ord"
    "HOL-Library.List_Lexorder"
    "HOL-Library.Product_Lexorder"
begin

section \<open>The match table of the dashboard (cricket\_project/app.py)\<close>

text \<open>
  The dashboard holds its data in data frames of the table library and computes every
  figure with calls into that library. The embedding keeps the shape of the script:
  a data frame is a row count and a list of named columns, a column (a series) is a
  list of cells of one dtype, a missing cell (\<^verbatim>\<open>None\<close>, \<^verbatim>\<open>NaN\<close>, \<^verbatim>\<open>NaT\<close>)
  is \<open>None\<close>, and each library call the script makes is one function below.
  The file \<^verbatim>\<open>data/cricbuzz_matches.csv\<close> is the input: its columns are read as text.
\<close>

subsection \<open>Values, series, data frames\<close>

datatype py_error = KeyError | AttributeError

text \<open>A timestamp is kept as (year, month, day); the order on triples is the calendar order.\<close>

type_synonym timestamp = "int \<times> nat \<times> nat"

definition year :: "timestamp \<Rightarrow> int" where
  "year ts = fst ts"

datatype scalar = Str string | Ts timestamp

datatype series =
    Object "string option list"
  | Datetime "timestamp option list"

record dataframe =
  nrows :: nat
  columns :: "(string \<times> series) list"

text \<open>The content of the match file: the number of data rows and the text columns.\<close>

record csv_file =
  csv_nrows :: nat
  csv_columns :: "(string \<times> string option list) list"


definition read_csv :: "csv_file \<Rightarrow> dataframe" where
  "read_csv f =
     \<lparr>nrows = csv_nrows f, columns = map (\<lambda>p. (fst p, Object (snd p))) (csv_columns f)\<rparr>"


text \<open>\<^verbatim>\<open>df.columns\<close> and \<^verbatim>\<open>df[col]\<close>: reading a column that is not there raises KeyError.\<close>

definition column_names :: "dataframe \<Rightarrow> string list" where
  "column_names df = map fst (columns df)"

definition getitem :: "dataframe \<Rightarrow> string \<Rightarrow> py_error + series" where
  "getitem df col = (case map_of (columns df) col of None \<Rightarrow> Inl KeyError | Some s \<Rightarrow> Inr s)"

text \<open>\<^verbatim>\<open>df[col] = s\<close>: replaces the column in place, or appends a new last column.\<close>

definition setitem :: "dataframe \<Rightarrow> string \<Rightarrow> series \<Rightarrow> dataframe" where
  "setitem df col s =
     df\<lparr>columns :=
       (if col \<in> set (column_names df)
        then map (\<lambda>p. if fst p = col then (col, s) else p) (columns df)
        else columns df @ [(col, s)])\<rparr>"

subsection \<open>Series operations the script calls\<close>

text \<open>The cells of a series as values, missing cells as \<open>None\<close>.\<close>

fun series_values :: "series \<Rightarrow> scalar option list" where
  "series_values (Object xs) = map (map_option Str) xs"
| "series_values (Datetime ds) = map (map_option Ts) ds"

text \<open>\<^verbatim>\<open>s.notnull().any()\<close>\<close>

definition notnull_any :: "series \<Rightarrow> bool" where
  "notnull_any s = list_ex (\<lambda>c. c \<noteq> None) (series_values s)"

text \<open>The non-missing cells, in order.\<close>

definition dropna :: "'a option list \<Rightarrow> 'a list" where
  "dropna xs = List.map_filter id xs"

text \<open>The distinct values in order of first occurrence (the library's hash table order).\<close>

primrec uniques :: "'a list \<Rightarrow> 'a list" where
  "uniques [] = []"
| "uniques (x # xs) = x # filter (\<lambda>y. y \<noteq> x) (uniques xs)"

text \<open>
  \<^verbatim>\<open>s.mode()\<close>: the values that occur most often among the non-missing cells,
  sorted ascending; empty when every cell is missing.
\<close>

definition modes :: "'a::linorder option list \<Rightarrow> 'a list" where
  "modes xs =
     (let vs = dropna xs;
          top = fold max (map (count_list vs) vs) 0
      in sort (filter (\<lambda>v. count_list vs v = top) (uniques vs)))"

fun mode :: "series \<Rightarrow> scalar list" where
  "mode (Object xs) = map Str (modes xs)"
| "mode (Datetime ds) = map Ts (modes ds)"

text \<open>
  \<^verbatim>\<open>s.value_counts().reset_index()\<close>: one row (value, count) per distinct non-missing
  value, by descending count; the table is built in order of first occurrence and then
  sorted by count, which is modelled as a stable sort.
\<close>

definition value_counts_of :: "'a option list \<Rightarrow> ('a \<times> nat) list" where
  "value_counts_of xs =
     (let vs = dropna xs
      in sort_key (\<lambda>p. - int (snd p)) (map (\<lambda>k. (k, count_list vs k)) (uniques vs)))"

definition value_counts :: "series \<Rightarrow> (scalar \<times> nat) list" where
  "value_counts s = value_counts_of (series_values s)"

text \<open>\<^verbatim>\<open>pd.concat([a, b])\<close> of two series, as a sequence of values.\<close>

definition concat_values :: "series \<Rightarrow> series \<Rightarrow> scalar option list" where
  "concat_values a b = series_values a @ series_values b"





text \<open>\<^verbatim>\<open>s.dt.year\<close>: the datetime accessor exists on datetime columns only.\<close>

fun dt_year :: "series \<Rightarrow> py_error + int option list" where
  "dt_year (Datetime ds) = Inr (map (map_option year) ds)"
| "dt_year (Object xs) = Inl AttributeError"

text \<open>
  \<^verbatim>\<open>df.groupby(keys).size().reset_index(name=...)\<close>: one row (key, number of rows)
  per distinct key, keys ascending; rows with a missing key belong to no group.
\<close>

definition groupby_size :: "'k::linorder option list \<Rightarrow> ('k \<times> nat) list" where
  "groupby_size ks =
     (let vs = dropna ks in map (\<lambda>k. (k, count_list vs k)) (sort (uniques vs)))"

text \<open>
  \<^verbatim>\<open>pd.to_datetime(s, errors='coerce')\<close>. The library's date parser is the parameter
  \<open>parse\<close>: it gives the timestamp a string denotes, or \<open>None\<close> for a string it
  rejects, which \<^verbatim>\<open>errors='coerce'\<close> turns into a missing cell. A datetime series
  is returned as it is.
\<close>

fun to_datetime :: "(string \<Rightarrow> timestamp option) \<Rightarrow> series \<Rightarrow> series" where
  "to_datetime parse (Object xs) =
     Datetime (map (\<lambda>c. case c of None \<Rightarrow> None | Some s \<Rightarrow> parse s) xs)"
| "to_datetime parse (Datetime ds) = Datetime ds"

subsection \<open>load\_data\<close>

definition expected_cols :: "string list" where
  "expected_cols =
     [''Venue'', ''City'', ''Team 1'', ''Team 2'', ''Series'', ''Match Category'',
      ''Start Date'', ''Toss Winner'']"

text \<open>The body of the loop over \<open>expected_cols\<close>: \<^verbatim>\<open>matches[col] = None\<close> when absent.\<close>

definition ensure_col :: "string \<Rightarrow> dataframe \<Rightarrow> dataframe" where
  "ensure_col col df =
     (if col \<notin> set (column_names df)
      then setitem df col (Object (replicate (nrows df) None))
      else df)"

definition ensure_expected :: "dataframe \<Rightarrow> dataframe" where
  "ensure_expected df = fold ensure_col expected_cols df"

definition load_data :: "(string \<Rightarrow> timestamp option) \<Rightarrow> csv_file \<Rightarrow> py_error + dataframe" where
  "load_data parse f =
     (let matches = ensure_expected (read_csv f)
      in case getitem matches ''Start Date'' of
           Inl e \<Rightarrow> Inl e
         | Inr s \<Rightarrow> Inr (setitem matches ''Start Date'' (to_datetime parse s)))"

subsection \<open>KPIs\<close>


text \<open>
  \<^verbatim>\<open>matches['Venue'].mode()[0] if matches['Venue'].notnull().any() else "N/A"\<close>;
  element 0 of an empty mode would raise KeyError.
\<close>

definition most_played_venue :: "dataframe \<Rightarrow> py_error + scalar" where
  "most_played_venue matches =
     (case getitem matches ''Venue'' of
        Inl e \<Rightarrow> Inl e
      | Inr s \<Rightarrow>
          if notnull_any s
          then (case mode s of [] \<Rightarrow> Inl KeyError | v # _ \<Rightarrow> Inr v)
          else Inr (Str ''N/A''))"






subsection \<open>Visualizations\<close>

text \<open>\<^verbatim>\<open>matches[col].value_counts().reset_index()\<close>\<close>

definition column_counts :: "string \<Rightarrow> dataframe \<Rightarrow> py_error + (scalar \<times> nat) list" where
  "column_counts col matches =
     (case getitem matches col of Inl e \<Rightarrow> Inl e | Inr s \<Rightarrow> Inr (value_counts s))"

definition city_counts :: "dataframe \<Rightarrow> py_error + (scalar \<times> nat) list" where
  "city_counts matches = column_counts ''City'' matches"




text \<open>\<^verbatim>\<open>pd.concat([matches['Team 1'], matches['Team 2']]).value_counts().reset_index()\<close>\<close>

definition team_counts :: "dataframe \<Rightarrow> py_error + (scalar \<times> nat) list" where
  "team_counts matches =
     (case getitem matches ''Team 1'' of
        Inl e \<Rightarrow> Inl e
      | Inr a \<Rightarrow>
          (case getitem matches ''Team 2'' of
             Inl e \<Rightarrow> Inl e
           | Inr b \<Rightarrow> Inr (value_counts_of (concat_values a b))))"


text \<open>
  \<^verbatim>\<open>matches.groupby(matches['Start Date'].dt.year).size().reset_index(name='Matches')\<close>
\<close>

definition over_years :: "dataframe \<Rightarrow> py_error + (int \<times> nat) list" where
  "over_years matches =
     (case getitem matches ''Start Date'' of
        Inl e \<Rightarrow> Inl e
      | Inr s \<Rightarrow>
          (case dt_year s of Inl e \<Rightarrow> Inl e | Inr ys \<Rightarrow> Inr (groupby_size ys)))"

subsection \<open>Vocabulary of the properties\<close>

text \<open>
  A column of the match file as the loaded table has it before any conversion: the
  cells read from the file, or one missing cell per row when the file has no such column.
\<close>

definition column_or_null :: "csv_file \<Rightarrow> string \<Rightarrow> string option list" where
  "column_or_null f c =
     (case map_of (csv_columns f) c of
        None \<Rightarrow> replicate (csv_nrows f) None
      | Some xs \<Rightarrow> xs)"




subsection \<open>A date parser for the examples\<close>

text \<open>
  The calendar dates \<^verbatim>\<open>YYYY-MM-DD\<close>, which the library's parser accepts; used where
  an example needs a concrete parser.
\<close>

definition digit :: "char \<Rightarrow> nat option" where
  "digit c = map_of (zip ''0123456789'' [0, 1, 2, 3, 4, 5, 6, 7, 8, 9]) c"

definition number :: "string \<Rightarrow> nat option" where
  "number s =
     fold (\<lambda>c acc. case (acc, digit c) of (Some n, Some d) \<Rightarrow> Some (10 * n + d) | _ \<Rightarrow> None)
       s (Some 0)"

definition days_in_month :: "nat \<Rightarrow> nat \<Rightarrow> nat" where
  "days_in_month y m =
     (if m = 2 then (if y mod 4 = 0 \<and> (y mod 100 \<noteq> 0 \<or> y mod 400 = 0) then 29 else 28)
      else if m = 4 \<or> m = 6 \<or> m = 9 \<or> m = 11 then 30
      else 31)"

definition iso_date :: "string \<Rightarrow> timestamp option" where
  "iso_date s =
     (if length s = 10 \<and> s ! 4 = CHR ''-'' \<and> s ! 7 = CHR ''-''
      then (case (number (take 4 s), number (take 2 (drop 5 s)), number (drop 8 s)) of
              (Some y, Some m, Some d) \<Rightarrow>
                if 1 \<le> m \<and> m \<le> 12 \<and> 1 \<le> d \<and> d \<le> days_in_month y m
                then Some (int y, m, d)
                else None
            | _ \<Rightarrow> None)
      else None)"

subsection \<open>Example match files\<close>

definition category_scenario :: csv_file where
  "category_scenario =
     \<lparr>csv_nrows = 3,
      csv_columns = [(''Match Category'', [Some ''live'', Some ''Live'', Some ''recent''])]\<rparr>"

definition dates_scenario :: csv_file where
  "dates_scenario =
     \<lparr>csv_nrows = 3,
      csv_columns =
        [(''Start Date'', [Some ''2023-01-05'', Some ''not-a-date'', Some ''2023-06-01''])]\<rparr>"

text \<open>Four matches; the file has no City, Series or Toss Winner column.\<close>

definition sample_file :: csv_file where
  "sample_file =
     \<lparr>csv_nrows = 4,
      csv_columns =
        [(''Venue'', [Some ''Wankhede'', Some ''Eden Gardens'', Some ''Eden Gardens'',
                      Some ''Wankhede'']),
         (''Team 1'', [Some ''India'', Some ''Australia'', Some ''India'', None]),
         (''Team 2'', [Some ''Australia'', Some ''India'', Some ''England'', Some ''England'']),
         (''Match Category'', [Some ''Live'', Some ''recent'', Some ''LIVE'', None]),
         (''Start Date'', [Some ''2024-06-01'', Some ''not-a-date'', Some ''2023-01-05'', None])]\<rparr>"

section \<open>Properties\<close>

subsection \<open>Reading and writing columns\<close>

lemma nrows_setitem: "nrows (setitem df c s) = nrows df"
  by (simp add: setitem_def)

lemma nrows_ensure_col: "nrows (ensure_col a df) = nrows df"
  by (simp add: ensure_col_def nrows_setitem)

lemma getitem_absent: "c \<notin> set (column_names df) \<Longrightarrow> getitem df c = Inl KeyError"
  by (simp add: getitem_def column_names_def map_of_eq_None_iff[THEN iffD2])

lemma map_of_replace:
  "map_of (map (\<lambda>p. if fst p = col then (col, s) else p) ps) c =
     (if c = col then (if col \<in> fst ` set ps then Some s else None) else map_of ps c)"
  by (induction ps) force+

lemma getitem_setitem:
  "getitem (setitem df col s) c = (if c = col then Inr s else getitem df c)"
proof (cases "col \<in> set (column_names df)")
  case True
  then show ?thesis
    by (simp add: getitem_def setitem_def map_of_replace column_names_def)
next
  case False
  then have "map_of (columns df) col = None"
    by (simp add: column_names_def map_of_eq_None_iff)
  with False show ?thesis
    by (simp add: getitem_def setitem_def map_add_def split: option.splits)
qed

lemma column_names_setitem:
  "column_names (setitem df col s) =
     (if col \<in> set (column_names df) then column_names df else column_names df @ [col])"
proof -
  have "map fst (map (\<lambda>p. if fst p = col then (col, s) else p) ps) = map fst ps" for ps :: "(string \<times> series) list"
    by (induction ps) auto
  then show ?thesis by (simp add: setitem_def column_names_def)
qed

lemma column_names_ensure_col:
  "set (column_names (ensure_col a df)) = insert a (set (column_names df))"
  by (auto simp: ensure_col_def column_names_setitem)

lemma getitem_ensure_col:
  "getitem (ensure_col a df) c =
     (if c = a \<and> a \<notin> set (column_names df) then Inr (Object (replicate (nrows df) None))
      else getitem df c)"
  by (simp add: ensure_col_def getitem_setitem)

lemma getitem_fold_ensure_col:
  "getitem (fold ensure_col cs df) c =
     (if c \<in> set (column_names df) then getitem df c
      else if c \<in> set cs then Inr (Object (replicate (nrows df) None))
      else Inl KeyError)"
proof (induction cs arbitrary: df)
  case Nil
  then show ?case by (simp add: getitem_absent)
next
  case (Cons a cs)
  show ?case
    by (simp add: Cons.IH column_names_ensure_col getitem_ensure_col nrows_ensure_col getitem_absent)
qed

lemma getitem_read_csv:
  "getitem (read_csv f) c =
     (case map_of (csv_columns f) c of None \<Rightarrow> Inl KeyError | Some xs \<Rightarrow> Inr (Object xs))"
proof -
  have "map_of (map (\<lambda>p. (fst p, Object (snd p))) ps) c = map_option Object (map_of ps c)"
    for ps :: "(string \<times> string option list) list"
    by (induction ps) auto
  then show ?thesis
    by (simp add: getitem_def read_csv_def split: option.splits)
qed

lemma column_names_read_csv: "column_names (read_csv f) = map fst (csv_columns f)"
  by (simp add: column_names_def read_csv_def comp_def)


lemma getitem_ensure_expected:
  assumes "c \<in> set expected_cols"
  shows "getitem (ensure_expected (read_csv f)) c = Inr (Object (column_or_null f c))"
proof (cases "map_of (csv_columns f) c")
  case None
  then have "c \<notin> set (column_names (read_csv f))"
    by (simp add: column_names_read_csv map_of_eq_None_iff)
  with None assms show ?thesis
    by (simp add: ensure_expected_def getitem_fold_ensure_col column_or_null_def read_csv_def)
next
  case (Some xs)
  then have "c \<in> set (column_names (read_csv f))"
    by (metis column_names_read_csv map_of_eq_None_iff option.distinct(1) set_map)
  with Some show ?thesis
    by (simp add: ensure_expected_def getitem_fold_ensure_col column_or_null_def getitem_read_csv)
qed

lemma start_date_expected: "''Start Date'' \<in> set expected_cols"
  by (simp add: expected_cols_def)

lemma load_data_eq:
  "load_data parse f =
     Inr (setitem (ensure_expected (read_csv f)) ''Start Date''
            (to_datetime parse (Object (column_or_null f ''Start Date''))))"
  by (simp add: load_data_def getitem_ensure_expected[OF start_date_expected])

lemma getitem_load_data:
  "load_data parse f = Inr matches \<Longrightarrow> c \<in> set expected_cols \<Longrightarrow>
   getitem matches c =
     (if c = ''Start Date'' then Inr (to_datetime parse (Object (column_or_null f c)))
      else Inr (Object (column_or_null f c)))"
  by (auto simp: load_data_eq getitem_setitem getitem_ensure_expected)

lemma load_data_keeps_other_columns:
  assumes "c \<noteq> ''Start Date''" and "map_of (csv_columns f) c = Some xs"
  shows "getitem (setitem (ensure_expected (read_csv f)) ''Start Date'' s) c = Inr (Object xs)"
proof -
  from assms(2) have "c \<in> set (column_names (read_csv f))"
    by (metis column_names_read_csv map_of_eq_None_iff option.distinct(1) set_map)
  with assms show ?thesis
    by (simp add: getitem_setitem ensure_expected_def getitem_fold_ensure_col getitem_read_csv)
qed

lemma column_or_null_absent:
  "c \<notin> fst ` set (csv_columns f) \<Longrightarrow> column_or_null f c = replicate (csv_nrows f) None"
  by (simp add: column_or_null_def map_of_eq_None_iff[THEN iffD2])

lemma column_or_null_present:
  "map_of (csv_columns f) c = Some xs \<Longrightarrow> column_or_null f c = xs"
  by (simp add: column_or_null_def)

text \<open>Unfolding the model on a concrete file.\<close>

lemmas evals = load_data_def ensure_expected_def ensure_col_def expected_cols_def read_csv_def
     column_names_def setitem_def getitem_def  notnull_any_def modes_def dropna_def List.map_filter_def
     iso_date_def number_def digit_def days_in_month_def sample_file_def value_counts_def value_counts_of_def
     concat_values_def groupby_size_def year_def dates_scenario_def

subsection \<open>Loading: missing columns and the Start Date column\<close>

text \<open>
  C1, as amended. Loading never fails. Every column of the required set that the file
  lacks is in the loaded table, one cell per row, every cell missing. A column of the
  file other than Start Date is in the loaded table as read. A Start Date column of the
  file is replaced by its conversion to timestamps.
\<close>

theorem load_data_backfills_and_parses:
  "\<exists>matches. load_data parse f = Inr matches \<and>
     (\<forall>c \<in> set expected_cols. c \<notin> fst ` set (csv_columns f) \<longrightarrow>
        (\<exists>s. getitem matches c = Inr s \<and> length (series_values s) = csv_nrows f \<and>
             list_all (\<lambda>v. v = None) (series_values s))) \<and>
     (\<forall>c xs. c \<noteq> ''Start Date'' \<and> map_of (csv_columns f) c = Some xs \<longrightarrow>
        getitem matches c = Inr (Object xs)) \<and>
     (\<forall>xs. map_of (csv_columns f) ''Start Date'' = Some xs \<longrightarrow>
        getitem matches ''Start Date'' = Inr (to_datetime parse (Object xs)))"
proof -
  let ?m = "setitem (ensure_expected (read_csv f)) ''Start Date''
              (to_datetime parse (Object (column_or_null f ''Start Date'')))"
  have m: "load_data parse f = Inr ?m"
    by (rule load_data_eq)
  have absent: "\<exists>s. getitem ?m c = Inr s \<and> length (series_values s) = csv_nrows f \<and>
      list_all (\<lambda>v. v = None) (series_values s)"
    if "c \<in> set expected_cols" and "c \<notin> fst ` set (csv_columns f)" for c
    using getitem_load_data[OF m that(1)] column_or_null_absent[OF that(2)]
    by (auto simp: list_all_iff)
  have other: "getitem ?m c = Inr (Object xs)"
    if "c \<noteq> ''Start Date''" and "map_of (csv_columns f) c = Some xs" for c xs
    using that by (rule load_data_keeps_other_columns)
  have date: "getitem ?m ''Start Date'' = Inr (to_datetime parse (Object xs))"
    if "map_of (csv_columns f) ''Start Date'' = Some xs" for xs
    using getitem_load_data[OF m start_date_expected] column_or_null_present[OF that]
    by simp
  from m absent other date show ?thesis by blast
qed

theorem load_data_backfills_and_parses_witness:
  "\<exists>matches s. load_data iso_date sample_file = Inr matches \<and>
     getitem matches ''Toss Winner'' = Inr s \<and> series_values s = [None, None, None, None] \<and>
     getitem matches ''Team 1'' =
       Inr (Object [Some ''India'', Some ''Australia'', Some ''India'', None]) \<and>
     getitem matches ''Start Date'' =
       Inr (Datetime [Some (2024, 6, 1), None, Some (2023, 1, 5), None])"
proof -
  obtain matches where m: "load_data iso_date sample_file = Inr matches"
    and absent: "\<forall>c \<in> set expected_cols. c \<notin> fst ` set (csv_columns sample_file) \<longrightarrow>
        (\<exists>s. getitem matches c = Inr s \<and> length (series_values s) = csv_nrows sample_file \<and>
             list_all (\<lambda>v. v = None) (series_values s))"
    and other: "\<forall>c xs. c \<noteq> ''Start Date'' \<and> map_of (csv_columns sample_file) c = Some xs \<longrightarrow>
        getitem matches c = Inr (Object xs)"
    and date: "\<forall>xs. map_of (csv_columns sample_file) ''Start Date'' = Some xs \<longrightarrow>
        getitem matches ''Start Date'' = Inr (to_datetime iso_date (Object xs))"
    using load_data_backfills_and_parses[of iso_date sample_file] by blast
  have "''Toss Winner'' \<in> set expected_cols"
    and "''Toss Winner'' \<notin> fst ` set (csv_columns sample_file)"
    by (simp_all add: expected_cols_def sample_file_def)
  with absent obtain s where s: "getitem matches ''Toss Winner'' = Inr s"
     "length (series_values s) = csv_nrows sample_file"
     "list_all (\<lambda>v. v = None) (series_values s)"
    by blast
  from s(3) have "replicate (length (series_values s)) None = series_values s"
    by (intro replicate_length_same) (simp add: list_all_iff)
  with s(2) have toss: "series_values s = [None, None, None, None]"
    by (simp add: sample_file_def numeral_eq_Suc)
  have team: "getitem matches ''Team 1'' =
      Inr (Object [Some ''India'', Some ''Australia'', Some ''India'', None])"
    using other by (simp add: sample_file_def)
  have "getitem matches ''Start Date'' =
      Inr (Datetime [Some (2024, 6, 1), None, Some (2023, 1, 5), None])"
    using date by (simp add: sample_file_def iso_date_def number_def digit_def days_in_month_def)
  with m s(1) toss team show ?thesis by blast
qed

text \<open>
  C1 as stated fails for Start Date: the file of the date scenario has the column, and
  the loaded table holds timestamps and a missing cell where text was read.
\<close>

theorem start_date_not_left_as_read:
  "getitem (read_csv dates_scenario) ''Start Date'' =
     Inr (Object [Some ''2023-01-05'', Some ''not-a-date'', Some ''2023-06-01'']) \<and>
   (case load_data iso_date dates_scenario of
      Inl e \<Rightarrow> Inl e
    | Inr matches \<Rightarrow> getitem matches ''Start Date'') =
     Inr (Datetime [Some (2023, 1, 5), None, Some (2023, 6, 1)])"
  by (simp add: evals)

subsection \<open>Start Date conversion\<close>

lemma to_datetime_idem: "to_datetime parse (to_datetime parse s) = to_datetime parse s"
  by (cases s) simp_all



subsection \<open>Category counters\<close>












subsection \<open>Bounds on the category counters\<close>






subsection \<open>Missing cells and distinct values\<close>

lemma dropna_simps [simp]:
  "dropna [] = []"
  "dropna (None # xs) = dropna xs"
  "dropna (Some x # xs) = x # dropna xs"
  by (simp_all add: dropna_def List.map_filter_simps)

lemma dropna_Cons:
  "dropna (c # xs) = (case c of None \<Rightarrow> dropna xs | Some x \<Rightarrow> x # dropna xs)"
  by (cases c) simp_all

lemma dropna_append [simp]: "dropna (xs @ ys) = dropna xs @ dropna ys"
  by (induction xs) (simp_all add: dropna_Cons split: option.splits)

lemma set_dropna: "x \<in> set (dropna xs) \<longleftrightarrow> Some x \<in> set xs"
  by (induction xs) (auto simp: dropna_Cons split: option.splits)

lemma count_dropna: "count_list (dropna xs) v = count_list xs (Some v)"
  by (induction xs) (auto simp: dropna_Cons split: option.splits)

lemma dropna_map: "dropna (map (map_option g) xs) = map g (dropna xs)"
  by (induction xs) (auto simp: dropna_Cons split: option.splits)

lemma dropna_empty_iff: "dropna xs = [] \<longleftrightarrow> \<not> list_ex (\<lambda>c. c \<noteq> None) xs"
  by (induction xs) (auto simp: dropna_Cons split: option.splits)

lemma length_dropna: "length (dropna xs) = length (filter (\<lambda>c. c \<noteq> None) xs)"
  by (induction xs) (auto simp: dropna_Cons split: option.splits)

lemma set_uniques [simp]: "set (uniques xs) = set xs"
  by (induction xs) auto

lemma distinct_uniques [simp]: "distinct (uniques xs)"
  by (induction xs) auto

lemma notnull_any_Object: "notnull_any (Object xs) \<longleftrightarrow> list_ex (\<lambda>c. c \<noteq> None) xs"
  by (induction xs) (auto simp: notnull_any_def)

subsection \<open>The mode of a column\<close>

lemma top_count_upper:
  "count_list vs v \<le> fold max (map (count_list vs) vs) 0"
proof -
  have eq: "fold max (map (count_list vs) vs) 0 = Max (set (0 # map (count_list vs) vs))"
    by (rule Max.set_eq_fold[symmetric])
  show ?thesis
  proof (cases "v \<in> set vs")
    case True
    then have "count_list vs v \<in> set (0 # map (count_list vs) vs)" by simp
    then show ?thesis unfolding eq by (intro Max_ge) simp_all
  next
    case False
    then show ?thesis by (simp add: count_list_0_iff[THEN iffD2])
  qed
qed

lemma top_count_attained:
  assumes "vs \<noteq> []"
  shows "\<exists>v \<in> set vs. count_list vs v = fold max (map (count_list vs) vs) 0"
proof -
  let ?S = "set (0 # map (count_list vs) vs)"
  have eq: "fold max (map (count_list vs) vs) 0 = Max ?S"
    by (rule Max.set_eq_fold[symmetric])
  have "Max ?S \<in> ?S"
    by (intro Max_in) simp_all
  moreover have "Max ?S \<noteq> 0"
  proof -
    from assms obtain a where a: "a \<in> set vs" by (cases vs) auto
    then have "0 < count_list vs a"
      using count_list_0_iff[of vs a] by simp
    with top_count_upper[of vs a] show ?thesis unfolding eq by simp
  qed
  ultimately have "Max ?S \<in> count_list vs ` set vs" by auto
  then show ?thesis unfolding eq by auto
qed

lemma set_modes:
  "set (modes xs) =
     {v. Some v \<in> set xs \<and>
         count_list xs (Some v) = fold max (map (count_list (dropna xs)) (dropna xs)) 0}"
  by (auto simp: modes_def Let_def set_dropna count_dropna)

lemma sorted_modes: "sorted (modes xs)"
  by (simp add: modes_def Let_def)

lemma modes_nonempty:
  assumes "list_ex (\<lambda>c. c \<noteq> None) xs"
  shows "modes xs \<noteq> []"
proof -
  from assms have "dropna xs \<noteq> []" by (simp add: dropna_empty_iff)
  from top_count_attained[OF this] obtain v where "v \<in> set (dropna xs)"
    and "count_list (dropna xs) v = fold max (map (count_list (dropna xs)) (dropna xs)) 0"
    by blast
  then have "v \<in> set (modes xs)"
    by (simp add: set_modes set_dropna count_dropna)
  then show ?thesis by auto
qed

lemma modes_first:
  assumes "modes xs = v # rest"
  shows "Some v \<in> set xs"
    and "count_list xs (Some w) \<le> count_list xs (Some v)"
    and "Some w \<in> set xs \<Longrightarrow> (\<forall>u. count_list xs (Some u) \<le> count_list xs (Some w)) \<Longrightarrow> v \<le> w"
proof -
  let ?top = "fold max (map (count_list (dropna xs)) (dropna xs)) 0"
  from assms have "v \<in> set (modes xs)" by simp
  then have v: "Some v \<in> set xs" "count_list xs (Some v) = ?top"
    by (simp_all add: set_modes)
  show "Some v \<in> set xs" by fact
  show "count_list xs (Some w) \<le> count_list xs (Some v)"
    using top_count_upper[of "dropna xs" w] v(2) by (simp add: count_dropna)
  show "v \<le> w" if w: "Some w \<in> set xs" and top: "\<forall>u. count_list xs (Some u) \<le> count_list xs (Some w)"
  proof -
    have "count_list xs (Some w) \<le> ?top"
      using top_count_upper[of "dropna xs" w] by (simp add: count_dropna)
    moreover have "?top \<le> count_list xs (Some w)"
      using top v(2) by metis
    ultimately have "w \<in> set (modes xs)"
      using w by (simp add: set_modes)
    with assms have "w = v \<or> w \<in> set rest" by auto
    moreover have "\<forall>y \<in> set rest. v \<le> y"
      using sorted_modes[of xs] assms by simp
    ultimately show ?thesis by auto
  qed
qed

lemma venue_expected: "''Venue'' \<in> set expected_cols"
  by (simp add: expected_cols_def)

lemma most_played_venue_load_data:
  assumes "load_data parse f = Inr matches"
  shows "most_played_venue matches =
     (if list_ex (\<lambda>c. c \<noteq> None) (column_or_null f ''Venue'')
      then (case modes (column_or_null f ''Venue'') of
              [] \<Rightarrow> Inl KeyError
            | v # _ \<Rightarrow> Inr (Str v))
      else Inr (Str ''N/A''))"
proof -
  have g: "getitem matches ''Venue'' = Inr (Object (column_or_null f ''Venue''))"
    using getitem_load_data[OF assms venue_expected] by simp
  show ?thesis
    by (simp add: most_played_venue_def g notnull_any_Object split: list.splits)
qed

text \<open>
  C4. On the loaded table the most-played-venue KPI never fails and its result is a
  string: when the Venue column has a value it is a value of the column that no other
  value outnumbers, and when every cell is missing it is the string N/A.
\<close>

theorem most_played_venue_mode_or_sentinel:
  "\<exists>matches. load_data parse f = Inr matches \<and>
     (if list_ex (\<lambda>c. c \<noteq> None) (column_or_null f ''Venue'')
      then \<exists>v. most_played_venue matches = Inr (Str v) \<and>
             Some v \<in> set (column_or_null f ''Venue'') \<and>
             (\<forall>w. count_list (column_or_null f ''Venue'') (Some w)
                   \<le> count_list (column_or_null f ''Venue'') (Some v))
      else most_played_venue matches = Inr (Str ''N/A''))"
proof -
  obtain matches where m: "load_data parse f = Inr matches"
    by (simp add: load_data_eq)
  let ?venue = "column_or_null f ''Venue''"
  show ?thesis
  proof (cases "list_ex (\<lambda>c. c \<noteq> None) ?venue")
    case True
    from modes_nonempty[OF True] obtain v rest where ms: "modes ?venue = v # rest"
      by (cases "modes ?venue") auto
    have "most_played_venue matches = Inr (Str v)"
      using True by (simp add: most_played_venue_load_data[OF m] ms)
    with m modes_first(1,2)[OF ms] show ?thesis
      unfolding if_P[OF True] by blast
  next
    case False
    have "most_played_venue matches = Inr (Str ''N/A'')"
      using False by (simp add: most_played_venue_load_data[OF m])
    with m show ?thesis
      unfolding if_not_P[OF False] by blast
  qed
qed

theorem most_played_venue_mode_or_sentinel_witness:
  "\<exists>matches. load_data iso_date category_scenario = Inr matches \<and>
     most_played_venue matches = Inr (Str ''N/A'')"
  using most_played_venue_mode_or_sentinel[of iso_date category_scenario]
  by (simp add: column_or_null_def category_scenario_def numeral_3_eq_3)

text \<open>
  C8. When several venues are the most frequent, the KPI returns the least of them in
  the order of strings: for every most frequent venue \<open>w\<close> the result is a most
  frequent venue \<open>v\<close> with \<open>v \<le> w\<close>. The result is a function of the loaded table.
\<close>

theorem most_played_venue_least_of_ties:
  "\<exists>matches. load_data parse f = Inr matches \<and>
     (\<forall>w. Some w \<in> set (column_or_null f ''Venue'') \<and>
          (\<forall>u. count_list (column_or_null f ''Venue'') (Some u)
                \<le> count_list (column_or_null f ''Venue'') (Some w)) \<longrightarrow>
          (\<exists>v. most_played_venue matches = Inr (Str v) \<and> v \<le> w \<and>
               Some v \<in> set (column_or_null f ''Venue'') \<and>
               (\<forall>u. count_list (column_or_null f ''Venue'') (Some u)
                     \<le> count_list (column_or_null f ''Venue'') (Some v))))"
proof -
  obtain matches where m: "load_data parse f = Inr matches"
    by (simp add: load_data_eq)
  let ?venue = "column_or_null f ''Venue''"
  have "\<exists>v. most_played_venue matches = Inr (Str v) \<and> v \<le> w \<and> Some v \<in> set ?venue \<and>
      (\<forall>u. count_list ?venue (Some u) \<le> count_list ?venue (Some v))"
    if w: "Some w \<in> set ?venue" and top: "\<forall>u. count_list ?venue (Some u) \<le> count_list ?venue (Some w)"
    for w
  proof -
    from w have ex: "list_ex (\<lambda>c. c \<noteq> None) ?venue"
      by (auto simp: list_ex_iff)
    from modes_nonempty[OF ex] obtain v rest where ms: "modes ?venue = v # rest"
      by (cases "modes ?venue") auto
    have "most_played_venue matches = Inr (Str v)"
      using ex by (simp add: most_played_venue_load_data[OF m] ms)
    with modes_first[OF ms] w top show ?thesis by blast
  qed
  with m show ?thesis by blast
qed

theorem most_played_venue_least_of_ties_witness:
  "\<exists>matches. load_data iso_date sample_file = Inr matches \<and>
     most_played_venue matches = Inr (Str ''Eden Gardens'')"
proof -
  let ?venue = "column_or_null sample_file ''Venue''"
  have venue: "?venue =
      [Some ''Wankhede'', Some ''Eden Gardens'', Some ''Eden Gardens'', Some ''Wankhede'']"
    by (simp add: column_or_null_def sample_file_def)
  have w: "Some ''Eden Gardens'' \<in> set ?venue"
    by (simp add: venue)
  have top: "\<forall>u. count_list ?venue (Some u) \<le> count_list ?venue (Some ''Eden Gardens'')"
    by (simp add: venue)
  from most_played_venue_least_of_ties[of iso_date sample_file] w top
  obtain matches v where m: "load_data iso_date sample_file = Inr matches"
    and v: "most_played_venue matches = Inr (Str v)" "v \<le> ''Eden Gardens''"
      "Some v \<in> set ?venue"
    by blast
  from v(3) have "v = ''Wankhede'' \<or> v = ''Eden Gardens''"
    by (auto simp: venue)
  moreover have "\<not> ''Wankhede'' \<le> ''Eden Gardens''"
    by simp
  ultimately have "v = ''Eden Gardens''"
    using v(2) by blast
  with m v(1) show ?thesis by blast
qed

subsection \<open>Frequency tables\<close>





lemma sum_list_insort_key:
  fixes h :: "'b \<Rightarrow> nat"
  shows "sum_list (map h (insort_key f x ys)) = h x + sum_list (map h ys)"
  by (induction ys) simp_all

lemma sum_list_sort_key:
  fixes h :: "'b \<Rightarrow> nat"
  shows "sum_list (map h (sort_key f xs)) = sum_list (map h xs)"
  by (induction xs) (simp_all add: sum_list_insort_key)



lemma sum_counts_uniques: "sum_list (map (count_list vs) (uniques vs)) = length vs"
proof -
  have "sum_list (map (count_list vs) (uniques vs)) = sum (count_list vs) (set (uniques vs))"
    by (rule sum_list_distinct_conv_sum_set) simp
  also have "\<dots> = length vs"
    by (simp add: sum_count_set)
  finally show ?thesis .
qed

lemma set_value_counts_of:
  "set (value_counts_of xs) = (\<lambda>k. (k, count_list xs (Some k))) ` {k. Some k \<in> set xs}"
  by (auto simp: value_counts_of_def Let_def set_dropna count_dropna)

lemma sum_value_counts_of:
  "sum_list (map snd (value_counts_of xs)) = length (dropna xs)"
  by (simp add: value_counts_of_def Let_def sum_list_sort_key comp_def sum_counts_uniques)



lemma count_series_values:
  "count_list (map (map_option Str) xs) (Some (Str v)) = count_list xs (Some v)"
  by (induction xs) (auto split: option.splits)

lemma Some_Str_in_series_values:
  "Some (Str v) \<in> set (map (map_option Str) xs) \<longleftrightarrow> Some v \<in> set xs"
proof (induction xs)
  case Nil
  then show ?case by simp
next
  case (Cons c xs)
  then show ?case by (cases c) auto
qed


lemma team_counts_load_data:
  assumes "load_data parse f = Inr matches"
  shows "team_counts matches =
     Inr (value_counts_of
            (series_values (Object (column_or_null f ''Team 1'')) @
             series_values (Object (column_or_null f ''Team 2''))))"
proof -
  have "''Team 1'' \<in> set expected_cols" and "''Team 2'' \<in> set expected_cols"
    by (simp_all add: expected_cols_def)
  from getitem_load_data[OF assms this(1)] getitem_load_data[OF assms this(2)]
  show ?thesis
    by (simp add: team_counts_def concat_values_def)
qed




text \<open>
  C10. On the loaded table the team table is computed without failure; its counts add
  up to the number of non-missing Team 1 cells plus the number of non-missing Team 2
  cells, and the row of each team counts its occurrences in Team 1 plus those in Team 2.
\<close>

theorem team_counts_total:
  "\<exists>matches rows. load_data parse f = Inr matches \<and> team_counts matches = Inr rows \<and>
     sum_list (map snd rows) =
       length (filter (\<lambda>c. c \<noteq> None) (column_or_null f ''Team 1'')) +
       length (filter (\<lambda>c. c \<noteq> None) (column_or_null f ''Team 2'')) \<and>
     (\<forall>v. Some v \<in> set (column_or_null f ''Team 1'') \<union> set (column_or_null f ''Team 2'') \<longrightarrow>
        (Str v, count_list (column_or_null f ''Team 1'') (Some v) +
                count_list (column_or_null f ''Team 2'') (Some v)) \<in> set rows)"
proof -
  obtain matches where m: "load_data parse f = Inr matches"
    by (simp add: load_data_eq)
  let ?t1 = "column_or_null f ''Team 1''" and ?t2 = "column_or_null f ''Team 2''"
  let ?xs = "series_values (Object ?t1) @ series_values (Object ?t2)"
  have rows: "team_counts matches = Inr (value_counts_of ?xs)"
    by (rule team_counts_load_data[OF m])
  have total: "sum_list (map snd (value_counts_of ?xs)) =
      length (filter (\<lambda>c. c \<noteq> None) ?t1) + length (filter (\<lambda>c. c \<noteq> None) ?t2)"
    by (simp add: sum_value_counts_of dropna_map length_dropna)
  have each: "(Str v, count_list ?t1 (Some v) + count_list ?t2 (Some v)) \<in> set (value_counts_of ?xs)"
    if "Some v \<in> set ?t1 \<union> set ?t2" for v
  proof -
    from that have "Some (Str v) \<in> set ?xs"
      using Some_Str_in_series_values[of v ?t1] Some_Str_in_series_values[of v ?t2] by auto
    then have "(Str v, count_list ?xs (Some (Str v))) \<in> set (value_counts_of ?xs)"
      unfolding set_value_counts_of by blast
    then show ?thesis
      by (simp add: count_series_values)
  qed
  from m rows total each show ?thesis by blast
qed

theorem team_counts_total_witness:
  "\<exists>matches rows. load_data iso_date sample_file = Inr matches \<and>
     team_counts matches = Inr rows \<and> sum_list (map snd rows) = 7 \<and>
     (Str ''India'', 3) \<in> set rows"
proof -
  from team_counts_total[of iso_date sample_file]
  obtain matches rows where m: "load_data iso_date sample_file = Inr matches"
    and rows: "team_counts matches = Inr rows"
    and total: "sum_list (map snd rows) =
       length (filter (\<lambda>c. c \<noteq> None) (column_or_null sample_file ''Team 1'')) +
       length (filter (\<lambda>c. c \<noteq> None) (column_or_null sample_file ''Team 2''))"
    and each: "\<forall>v. Some v \<in> set (column_or_null sample_file ''Team 1'') \<union>
          set (column_or_null sample_file ''Team 2'') \<longrightarrow>
        (Str v, count_list (column_or_null sample_file ''Team 1'') (Some v) +
                count_list (column_or_null sample_file ''Team 2'') (Some v)) \<in> set rows"
    by blast
  from total have "sum_list (map snd rows) = 7"
    by (simp add: column_or_null_def sample_file_def)
  moreover from each[rule_format, of "''India''"] have "(Str ''India'', 3) \<in> set rows"
    by (simp add: column_or_null_def sample_file_def numeral_3_eq_3)
  ultimately show ?thesis using m rows by blast
qed




subsection \<open>Matches over years\<close>

lemma keys_groupby_size: "map fst (groupby_size ks) = sort (uniques (dropna ks))"
  by (simp add: groupby_size_def Let_def comp_def)

lemma set_groupby_size:
  "set (groupby_size ks) = (\<lambda>k. (k, count_list ks (Some k))) ` {k. Some k \<in> set ks}"
  by (auto simp: groupby_size_def Let_def set_dropna count_dropna)

lemma sum_groupby_size: "sum_list (map snd (groupby_size ks)) = length (dropna ks)"
proof -
  have "sum_list (map snd (groupby_size ks)) =
      sum_list (map (count_list (dropna ks)) (sort (uniques (dropna ks))))"
    by (simp add: groupby_size_def Let_def comp_def)
  also have "\<dots> = sum_list (map (count_list (dropna ks)) (uniques (dropna ks)))"
    by (rule sum_list_sort_key)
  also have "\<dots> = length (dropna ks)"
    by (rule sum_counts_uniques)
  finally show ?thesis .
qed

lemma count_years:
  "count_list (map (map_option year) ds) (Some y) =
   length (filter (\<lambda>d. map_option year d = Some y) ds)"
  by (induction ds) auto

lemma groupby_size_all_null: "list_all (\<lambda>d. d = None) ks \<Longrightarrow> groupby_size ks = []"
  by (induction ks) (auto simp: groupby_size_def)

lemma over_years_load_data:
  assumes "load_data parse f = Inr matches"
  shows "\<exists>ds. getitem matches ''Start Date'' = Inr (Datetime ds) \<and>
     ds = map (\<lambda>c. case c of None \<Rightarrow> None | Some s \<Rightarrow> parse s) (column_or_null f ''Start Date'') \<and>
     over_years matches = Inr (groupby_size (map (map_option year) ds))"
  using getitem_load_data[OF assms start_date_expected]
  by (simp add: over_years_def)

text \<open>
  C6. On the loaded table the yearly series is computed without failure from the
  converted Start Date column: the years ascend without repetition; a pair (year, n) is
  in the series exactly when n is the number of rows whose Start Date has that year and
  n is positive; the counts add up to the number of rows with a date, so rows without one
  are in no group; the series is empty when every date is missing. When the parser reads
  2023-01-05 and 2023-06-01 as dates of the year 2023 and rejects not-a-date, the file
  with these three Start Date cells gives exactly [(2023, 2)].
\<close>

theorem over_years_by_year:
  "(\<exists>matches ds rows. load_data parse f = Inr matches \<and>
      getitem matches ''Start Date'' = Inr (Datetime ds) \<and>
      over_years matches = Inr rows \<and>
      sorted (map fst rows) \<and> distinct (map fst rows) \<and>
      (\<forall>y n. (y, n) \<in> set rows \<longleftrightarrow>
         0 < n \<and> n = length (filter (\<lambda>d. map_option year d = Some y) ds)) \<and>
      sum_list (map snd rows) = length (filter (\<lambda>d. d \<noteq> None) ds) \<and>
      (list_all (\<lambda>d. d = None) ds \<longrightarrow> rows = [])) \<and>
   (map_option year (parse ''2023-01-05'') = Some 2023 \<and> parse ''not-a-date'' = None \<and>
    map_option year (parse ''2023-06-01'') = Some 2023 \<longrightarrow>
      (\<exists>matches. load_data parse dates_scenario = Inr matches \<and>
         over_years matches = Inr [(2023, 2)]))"
proof -
  have general: "\<exists>matches ds rows. load_data parse f = Inr matches \<and>
      getitem matches ''Start Date'' = Inr (Datetime ds) \<and>
      over_years matches = Inr rows \<and>
      sorted (map fst rows) \<and> distinct (map fst rows) \<and>
      (\<forall>y n. (y, n) \<in> set rows \<longleftrightarrow>
         0 < n \<and> n = length (filter (\<lambda>d. map_option year d = Some y) ds)) \<and>
      sum_list (map snd rows) = length (filter (\<lambda>d. d \<noteq> None) ds) \<and>
      (list_all (\<lambda>d. d = None) ds \<longrightarrow> rows = [])"
  proof -
    obtain matches where m: "load_data parse f = Inr matches"
      by (simp add: load_data_eq)
    from over_years_load_data[OF m] obtain ds
      where ds: "getitem matches ''Start Date'' = Inr (Datetime ds)"
        and rows: "over_years matches = Inr (groupby_size (map (map_option year) ds))"
      by blast
    let ?ks = "map (map_option year) ds"
    have keys: "sorted (map fst (groupby_size ?ks))" "distinct (map fst (groupby_size ?ks))"
      by (simp_all add: keys_groupby_size)
    have member: "(y, n) \<in> set (groupby_size ?ks) \<longleftrightarrow>
        0 < n \<and> n = length (filter (\<lambda>d. map_option year d = Some y) ds)" for y n
    proof -
      have "Some y \<in> set ?ks \<longleftrightarrow> 0 < count_list ?ks (Some y)"
        using count_list_0_iff[of ?ks "Some y"] by auto
      then show ?thesis
        unfolding set_groupby_size by (auto simp: count_years)
    qed
    have total: "sum_list (map snd (groupby_size ?ks)) = length (filter (\<lambda>d. d \<noteq> None) ds)"
      by (simp add: sum_groupby_size dropna_map length_dropna)
    have empty: "groupby_size ?ks = []" if "list_all (\<lambda>d. d = None) ds"
      using that by (intro groupby_size_all_null) (simp add: list_all_iff)
    from m ds rows keys member total empty show ?thesis by blast
  qed
  have scenario: "\<exists>matches. load_data parse dates_scenario = Inr matches \<and>
         over_years matches = Inr [(2023, 2)]"
    if "map_option year (parse ''2023-01-05'') = Some 2023" and "parse ''not-a-date'' = None"
      and "map_option year (parse ''2023-06-01'') = Some 2023"
  proof -
    obtain matches where m: "load_data parse dates_scenario = Inr matches"
      by (simp add: load_data_eq)
    from over_years_load_data[OF m] that have "over_years matches = Inr [(2023, 2)]"
      by (auto simp: column_or_null_def dates_scenario_def groupby_size_def)
    with m show ?thesis by blast
  qed
  from general scenario show ?thesis by blast
qed

theorem over_years_by_year_witness:
  "map_option year (iso_date ''2023-01-05'') = Some 2023 \<and> iso_date ''not-a-date'' = None \<and>
   map_option year (iso_date ''2023-06-01'') = Some 2023 \<and>
   (\<exists>matches. load_data iso_date dates_scenario = Inr matches \<and>
      over_years matches = Inr [(2023, 2)])"
proof -
  have parse: "map_option year (iso_date ''2023-01-05'') = Some 2023 \<and>
      iso_date ''not-a-date'' = None \<and> map_option year (iso_date ''2023-06-01'') = Some 2023"
    by (simp add: iso_date_def number_def digit_def days_in_month_def year_def)
  with over_years_by_year[of iso_date dates_scenario] show ?thesis
    by blast
qed

end
